theory Spec2Isabelle
  imports Main "HOL-Library.Sublist" "HOL-Library.AList"
begin

section \<open>Strings of the query engine\<close>

text \<open>
  The search parser (\<^verbatim>\<open>SearchParser\<close>, file \<^verbatim>\<open>lib/searchParser\<close>) works on JavaScript
  strings. A string is modelled as a \<^typ>\<open>string\<close>, each \<^typ>\<open>char\<close> being one code unit
  read as a Latin-1 character (the first 256 code points). Text with code units above 255
  is outside the model.
\<close>

definition of_c :: "char \<Rightarrow> nat" where
  "of_c c = of_char c"

text \<open>The class \<^verbatim>\<open>\s\<close> and the characters removed by \<^verbatim>\<open>trim()\<close>:
  TAB, LF, VT, FF, CR, space and the no-break space.\<close>

definition isSpace :: "char \<Rightarrow> bool" where
  "isSpace c = (of_c c \<in> {9, 10, 11, 12, 13, 32, 160})"

text \<open>The class \<^verbatim>\<open>\w\<close>, that is \<^verbatim>\<open>[A-Za-z0-9_]\<close>.\<close>

definition isWord :: "char \<Rightarrow> bool" where
  "isWord c = (let n = of_c c in
     (65 \<le> n \<and> n \<le> 90) \<or> (97 \<le> n \<and> n \<le> 122) \<or> (48 \<le> n \<and> n \<le> 57) \<or> n = 95)"

text \<open>The class \<^verbatim>\<open>.\<close> without the \<^verbatim>\<open>s\<close> flag: everything but a line terminator.\<close>

definition isDot :: "char \<Rightarrow> bool" where
  "isDot c = (of_c c \<noteq> 10 \<and> of_c c \<noteq> 13)"

definition lowerChar :: "char \<Rightarrow> char" where
  "lowerChar c = (let n = of_c c in
     if (65 \<le> n \<and> n \<le> 90) \<or> (192 \<le> n \<and> n \<le> 222 \<and> n \<noteq> 215)
     then char_of (n + 32) else c)"

text \<open>
  \<^verbatim>\<open>toUpperCase\<close> on the letters whose capital is again a single Latin-1 character. The
  parser applies it to matches of \<^verbatim>\<open>AND|OR|NOT\<close> only.
\<close>

definition upperChar :: "char \<Rightarrow> char" where
  "upperChar c = (let n = of_c c in
     if (97 \<le> n \<and> n \<le> 122) \<or> (224 \<le> n \<and> n \<le> 254 \<and> n \<noteq> 247)
     then char_of (n - 32) else c)"

definition toLowerCase :: "string \<Rightarrow> string" where
  "toLowerCase s = map lowerChar s"

definition toUpperCase :: "string \<Rightarrow> string" where
  "toUpperCase s = map upperChar s"

text \<open>\<^verbatim>\<open>String.prototype.trim\<close>.\<close>

definition trim :: "string \<Rightarrow> string" where
  "trim s = rev (dropWhile isSpace (rev (dropWhile isSpace s)))"

text \<open>\<^verbatim>\<open>a.includes(b)\<close>: \<^term>\<open>b\<close> occurs in \<^term>\<open>a\<close> as a contiguous substring.\<close>

fun includesStr :: "string \<Rightarrow> string \<Rightarrow> bool" where
  "includesStr [] b = (b = [])"
| "includesStr (c # cs) b = (take (length b) (c # cs) = b \<or> includesStr cs b)"

text \<open>\<^verbatim>\<open>a.split(sep)\<close> for a separator of one character.\<close>

fun splitChar :: "char \<Rightarrow> string \<Rightarrow> string list" where
  "splitChar sep [] = [[]]"
| "splitChar sep (c # cs) =
     (if c = sep then [] # splitChar sep cs
      else (case splitChar sep cs of p # ps \<Rightarrow> (c # p) # ps | [] \<Rightarrow> [[c]]))"

text \<open>\<^verbatim>\<open>a.replace(pat, rep)\<close> with a string pattern: the first occurrence only.\<close>

fun replaceFirst :: "string \<Rightarrow> string \<Rightarrow> string \<Rightarrow> string" where
  "replaceFirst pat rep [] = (if pat = [] then rep else [])"
| "replaceFirst pat rep (c # cs) =
     (if take (length pat) (c # cs) = pat then rep @ drop (length pat) (c # cs)
      else c # replaceFirst pat rep cs)"

text \<open>\<^verbatim>\<open>xs.join(sep)\<close>.\<close>

fun join :: "string \<Rightarrow> string list \<Rightarrow> string" where
  "join sep [] = []"
| "join sep [x] = x"
| "join sep (x # y # ys) = x @ sep @ join sep (y # ys)"

section \<open>Regular expressions with backtracking priority\<close>

text \<open>
  The regular expressions of the source, as data. A matcher state is the reversed text
  before the current position and the text after it.
\<close>

datatype regex =
    Eps
  | Cls "char \<Rightarrow> bool"
  | Seq regex regex
  | Alt regex regex
  | Star regex
  | StarLazy regex
  | Ahead regex
  | Bol
  | Eol
  | WordB

type_synonym mstate = "string \<times> string"

definition Plus :: "regex \<Rightarrow> regex" where
  "Plus r = Seq r (Star r)"

definition wordBoundary :: "mstate \<Rightarrow> bool" where
  "wordBoundary z =
     ((case fst z of [] \<Rightarrow> False | a # _ \<Rightarrow> isWord a) \<noteq>
      (case snd z of [] \<Rightarrow> False | b # _ \<Rightarrow> isWord b))"

text \<open>
  \<open>ms r z\<close> lists the states in which a match of \<open>r\<close> started at \<open>z\<close> can end, in the order
  in which a backtracking matcher tries them: the head is the match the engine reports.
  An iteration of a star that consumes nothing is rejected, as in ECMAScript.
\<close>

fun ms :: "regex \<Rightarrow> mstate \<Rightarrow> mstate list" where
  "ms Eps z = [z]"
| "ms (Cls p) (pre, suf) =
     (case suf of [] \<Rightarrow> [] | c # cs \<Rightarrow> if p c then [(c # pre, cs)] else [])"
| "ms (Seq a b) z = concat (map (ms b) (ms a z))"
| "ms (Alt a b) z = ms a z @ ms b z"
| "ms (Star r) z =
     concat (map (\<lambda>z'. if length (snd z') < length (snd z) then ms (Star r) z' else [])
                 (ms r z)) @ [z]"
| "ms (StarLazy r) z =
     z # concat (map (\<lambda>z'. if length (snd z') < length (snd z) then ms (StarLazy r) z' else [])
                     (ms r z))"
| "ms (Ahead r) z = (if ms r z = [] then [] else [z])"
| "ms Bol z = (if fst z = [] then [z] else [])"
| "ms Eol z = (if snd z = [] then [z] else [])"
| "ms WordB z = (if wordBoundary z then [z] else [])"

text \<open>
  The loop of a regular expression with the \<^verbatim>\<open>g\<close> flag over a text: the leftmost match at
  or after the current position is taken, the search resumes where it ended (one
  character further after an empty match). The result is the list of the matches, each
  with the unmatched text before it, and the unmatched text after the last match.
\<close>

type_synonym seg = "string \<times> string"

definition consSeg :: "seg \<Rightarrow> seg list \<times> string \<Rightarrow> seg list \<times> string" where
  "consSeg s p = (s # fst p, snd p)"

function gscan :: "regex \<Rightarrow> string \<Rightarrow> string \<Rightarrow> string \<Rightarrow> seg list \<times> string" where
  "gscan r pre suf gap =
     (case ms r (pre, suf) of
        [] \<Rightarrow> (case suf of [] \<Rightarrow> ([], rev gap) | c # cs \<Rightarrow> gscan r (c # pre) cs (c # gap))
      | z # _ \<Rightarrow>
          if length (snd z) < length suf
          then consSeg (rev gap, take (length suf - length (snd z)) suf) (gscan r (fst z) (snd z) [])
          else (case suf of
                  [] \<Rightarrow> ([(rev gap, [])], [])
                | c # cs \<Rightarrow> consSeg (rev gap, []) (gscan r (c # pre) cs [c])))"
  by pat_completeness auto
termination
  by (relation "measure (\<lambda>(r, pre, suf, gap). length suf)") auto

text \<open>\<^verbatim>\<open>s.match(/r/g)\<close>: the matched substrings, \<^verbatim>\<open>null\<close> when there is none.\<close>

definition matchAll :: "regex \<Rightarrow> string \<Rightarrow> string list option" where
  "matchAll r s = (case fst (gscan r [] s []) of [] \<Rightarrow> None | sg # sgs \<Rightarrow> Some (map snd (sg # sgs)))"

text \<open>\<^verbatim>\<open>s.replace(/r/g, rep)\<close>; the replacement is given as a function of the match.\<close>

definition replaceAll :: "regex \<Rightarrow> (string \<Rightarrow> string) \<Rightarrow> string \<Rightarrow> string" where
  "replaceAll r rep s =
     (let p = gscan r [] s [] in concat (map (\<lambda>sg. fst sg @ rep (snd sg)) (fst p)) @ snd p)"


text \<open>
  \<^verbatim>\<open>s.match(/(a)(b)/)\<close> without the \<^verbatim>\<open>g\<close> flag: the two groups of the leftmost match.
\<close>

fun execGroups2 :: "regex \<Rightarrow> regex \<Rightarrow> string \<Rightarrow> string \<Rightarrow> (string \<times> string) option" where
  "execGroups2 a b pre [] =
     (case concat (map (\<lambda>z1. map (\<lambda>z2. (z1, z2)) (ms b z1)) (ms a (pre, []))) of
        [] \<Rightarrow> None
      | _ # _ \<Rightarrow> Some ([], []))"
| "execGroups2 a b pre (c # cs) =
     (case concat (map (\<lambda>z1. map (\<lambda>z2. (z1, z2)) (ms b z1)) (ms a (pre, c # cs))) of
        [] \<Rightarrow> execGroups2 a b (c # pre) cs
      | (z1, z2) # _ \<Rightarrow>
          Some (take (length (c # cs) - length (snd z1)) (c # cs),
                take (length (snd z1) - length (snd z2)) (snd z1)))"

text \<open>A literal text as a regular expression; \<open>eq\<close> compares a character of the text with
  a character of the pattern.\<close>

fun lits :: "(char \<Rightarrow> char \<Rightarrow> bool) \<Rightarrow> string \<Rightarrow> regex" where
  "lits eq [] = Eps"
| "lits eq [x] = Cls (\<lambda>c. eq c x)"
| "lits eq (x # y # ys) = Seq (Cls (\<lambda>c. eq c x)) (lits eq (y # ys))"

text \<open>
  Comparison of characters under the \<^verbatim>\<open>i\<close> flag: both are canonicalised by
  \<^verbatim>\<open>toUpperCase\<close>. On Latin-1 this is \<^const>\<open>upperChar\<close>: the three letters whose capital
  lies outside Latin-1 are canonically equal to no other Latin-1 character.
\<close>

definition eqI :: "char \<Rightarrow> char \<Rightarrow> bool" where
  "eqI c x = (upperChar c = upperChar x)"

section \<open>The parsed query\<close>

datatype fieldValue = Str string | Arr "string list"

record DateFilter =
  field :: string
  operator :: string
  dvalue :: string

record ParsedQuery =
  qfields :: "(string \<times> fieldValue) list"
  operators :: "string list"
  fullText :: "string option"
  dateFilters :: "DateFilter list option"

text \<open>
  \<^verbatim>\<open>fields\<close> (here \<open>qfields\<close>) is a JavaScript object used as a dictionary: the list of
  its own properties in insertion order; \<^verbatim>\<open>result.fields[k] = v\<close> overwrites in place or
  appends. The key \<^verbatim>\<open>__proto__\<close> is the inherited accessor: assigning a string to it
  creates no property. (JavaScript enumerates keys that are array indices first; nothing
  below depends on the order of enumeration.)
\<close>

definition setField :: "string \<Rightarrow> fieldValue \<Rightarrow> (string \<times> fieldValue) list \<Rightarrow> (string \<times> fieldValue) list" where
  "setField k v fs = (if k = ''__proto__'' then fs else AList.update k v fs)"

text \<open>\<^verbatim>\<open>s.indexOf(c)\<close> and \<^verbatim>\<open>s.substring(a, b)\<close>, \<^verbatim>\<open>s.substring(a)\<close>.\<close>

definition indexOf :: "char \<Rightarrow> string \<Rightarrow> int" where
  "indexOf c s = (if c \<in> set s then int (length (takeWhile (\<lambda>x. x \<noteq> c) s)) else - 1)"

definition substring :: "int \<Rightarrow> int \<Rightarrow> string \<Rightarrow> string" where
  "substring a b s =
     (let n = int (length s);
          a' = max 0 (min a n);
          b' = max 0 (min b n);
          lo = min a' b';
          hi = max a' b'
      in take (nat (hi - lo)) (drop (nat lo) s))"

definition substringFrom :: "int \<Rightarrow> string \<Rightarrow> string" where
  "substringFrom a s = substring a (int (length s)) s"

subsection \<open>The regular expressions of \<^verbatim>\<open>parse\<close>\<close>

definition isColon :: "char \<Rightarrow> bool" where
  "isColon c = (c = CHR '':'')"

definition isQuote :: "char \<Rightarrow> bool" where
  "isQuote c = (c = CHR 0x22 \<or> c = CHR 0x27)"

definition isCmp :: "char \<Rightarrow> bool" where
  "isCmp c = (c = CHR ''>'' \<or> c = CHR ''<'' \<or> c = CHR ''='' \<or> c = CHR ''!'')"

text \<open>\<^verbatim>\<open>/\s+/g\<close>\<close>

definition spacesRx :: regex where
  "spacesRx = Plus (Cls isSpace)"

text \<open>\<^verbatim>\<open>/(\w+):\s*([^\s]+(?:\s+[^\s:]+)*?)(?=\s+\w+:|$)/g\<close>\<close>

definition fieldRx :: regex where
  "fieldRx =
     Seq (Plus (Cls isWord))
    (Seq (Cls isColon)
    (Seq (Star (Cls isSpace))
    (Seq (Seq (Plus (Cls (\<lambda>c. \<not> isSpace c)))
              (StarLazy (Seq (Plus (Cls isSpace)) (Plus (Cls (\<lambda>c. \<not> isSpace c \<and> \<not> isColon c))))))
         (Ahead (Alt (Seq (Plus (Cls isSpace)) (Seq (Plus (Cls isWord)) (Cls isColon))) Eol)))))"

text \<open>\<^verbatim>\<open>/^["']|["']$/g\<close>\<close>

definition quoteRx :: regex where
  "quoteRx = Alt (Seq Bol (Cls isQuote)) (Seq (Cls isQuote) Eol)"

text \<open>\<^verbatim>\<open>/\b(AND|OR|NOT)\b/gi\<close>\<close>

definition operatorRx :: regex where
  "operatorRx =
     Seq WordB (Seq (Alt (lits eqI ''AND'') (Alt (lits eqI ''OR'') (lits eqI ''NOT''))) WordB)"

subsection \<open>\<^verbatim>\<open>SearchParser.parse\<close>\<close>

text \<open>The body of the loop over the matched clauses (lines 29 to 57): the name before
  the first colon, the value after it with an outer quote removed at either end.\<close>

definition clauseField :: "string \<Rightarrow> string" where
  "clauseField match = trim (substring 0 (indexOf CHR '':'' match) match)"

definition clauseValue :: "string \<Rightarrow> string" where
  "clauseValue match =
     replaceAll quoteRx (\<lambda>_. []) (trim (substringFrom (indexOf CHR '':'' match + 1) match))"

text \<open>\<^verbatim>\<open>value.match(/([><=!]+)(.+)/)\<close>\<close>

definition dateMatch :: "string \<Rightarrow> (string \<times> string) option" where
  "dateMatch val = execGroups2 (Plus (Cls isCmp)) (Plus (Cls isDot)) [] val"

definition addClause :: "ParsedQuery \<Rightarrow> string \<Rightarrow> ParsedQuery" where
  "addClause result match =
     (let fld = clauseField match;
          val = clauseValue match
      in if fld = ''created'' \<or> fld = ''updated'' then
           (case dateMatch val of
              Some (g1, g2) \<Rightarrow>
                result\<lparr>dateFilters :=
                  map_option (\<lambda>fs. fs @ [\<lparr>field = fld, operator = g1, dvalue = trim g2\<rparr>])
                             (dateFilters result)\<rparr>
            | None \<Rightarrow> result)
         else if fld = ''tags'' then
           (if CHR '','' \<in> set val
            then result\<lparr>qfields := setField fld (Arr (map trim (splitChar CHR '','' val))) (qfields result)\<rparr>
            else result\<lparr>qfields := setField fld (Str val) (qfields result)\<rparr>)
         else result\<lparr>qfields := setField fld (Str val) (qfields result)\<rparr>)"

text \<open>\<^verbatim>\<open>query.trim().replace(/\s+/g, ' ')\<close>\<close>

definition normalizeQuery :: "string \<Rightarrow> string" where
  "normalizeQuery query = replaceAll spacesRx (\<lambda>_. '' '') (trim query)"

definition parse :: "string \<Rightarrow> ParsedQuery" where
  "parse query =
     (let result = \<lparr>qfields = [], operators = [], fullText = None, dateFilters = Some []\<rparr>;
          normalizedQuery = normalizeQuery query
      in case matchAll fieldRx normalizedQuery of
           Some fieldMatches \<Rightarrow>
             (let result1 = foldl addClause result fieldMatches;
                  remainingQuery = foldl (\<lambda>r m. replaceFirst m [] r) normalizedQuery fieldMatches;
                  operatorMatches = matchAll operatorRx remainingQuery;
                  result2 = (case operatorMatches of
                               Some ops \<Rightarrow> result1\<lparr>operators := map toUpperCase ops\<rparr>
                             | None \<Rightarrow> result1);
                  remainingQuery2 = (case operatorMatches of
                               Some ops \<Rightarrow> trim (replaceAll operatorRx (\<lambda>_. []) remainingQuery)
                             | None \<Rightarrow> remainingQuery)
              in if trim remainingQuery2 \<noteq> []
                 then result2\<lparr>fullText := Some (trim remainingQuery2)\<rparr>
                 else result2)
         | None \<Rightarrow> result\<lparr>fullText := Some normalizedQuery\<rparr>)"

section \<open>Records of the knowledge base\<close>

text \<open>
  The interface \<^verbatim>\<open>ContentItem\<close> of \<^verbatim>\<open>@/types\<close>. The content type is the union of the five
  string literals; \<open>typeName\<close> gives the literal. An optional member is an \<open>option\<close>,
  \<^verbatim>\<open>Record<string, any>\<close> a list of properties whose values have a type left open, and
  \<^verbatim>\<open>fileSize\<close> a number that the parser never reads. The member \<^verbatim>\<open>id\<close> is called
  \<open>itemId\<close>, the name \<open>id\<close> being the identity function.
\<close>

datatype ContentType = Document | Image | Video | Note | Link

fun typeName :: "ContentType \<Rightarrow> string" where
  "typeName Document = ''document''"
| "typeName Image = ''image''"
| "typeName Video = ''video''"
| "typeName Note = ''note''"
| "typeName Link = ''link''"

record 'v ContentItem =
  itemId :: string
  userId :: string
  title :: string
  contentType :: ContentType
  content :: "string option"
  fileUrl :: "string option"
  fileSize :: "int option"
  mimeType :: "string option"
  tags :: "string list"
  collectionId :: "string option"
  metadata :: "(string \<times> 'v) list option"
  createdAt :: string
  updatedAt :: string

section \<open>\<^verbatim>\<open>SearchParser.filter\<close>\<close>

text \<open>
  The \<^verbatim>\<open>Date\<close> class of the platform is a parameter: \<open>pd\<close> is the time value of
  \<^verbatim>\<open>new Date(s)\<close>, \<open>None\<close> for an invalid date, and \<open>ds\<close> is \<^verbatim>\<open>toDateString\<close> on a valid
  time value. Comparisons with an invalid date are false.
\<close>

definition dateGt :: "int option \<Rightarrow> int option \<Rightarrow> bool" where
  "dateGt a b = (case a of None \<Rightarrow> False | Some x \<Rightarrow> (case b of None \<Rightarrow> False | Some y \<Rightarrow> x > y))"

definition dateLt :: "int option \<Rightarrow> int option \<Rightarrow> bool" where
  "dateLt a b = (case a of None \<Rightarrow> False | Some x \<Rightarrow> (case b of None \<Rightarrow> False | Some y \<Rightarrow> x < y))"

definition dateGe :: "int option \<Rightarrow> int option \<Rightarrow> bool" where
  "dateGe a b = (case a of None \<Rightarrow> False | Some x \<Rightarrow> (case b of None \<Rightarrow> False | Some y \<Rightarrow> x \<ge> y))"

definition dateLe :: "int option \<Rightarrow> int option \<Rightarrow> bool" where
  "dateLe a b = (case a of None \<Rightarrow> False | Some x \<Rightarrow> (case b of None \<Rightarrow> False | Some y \<Rightarrow> x \<le> y))"

definition toDateString :: "(int \<Rightarrow> string) \<Rightarrow> int option \<Rightarrow> string" where
  "toDateString ds a = (case a of None \<Rightarrow> ''Invalid Date'' | Some x \<Rightarrow> ds x)"

text \<open>\<^verbatim>\<open>item.tags.some(tag => tag.toLowerCase().includes(v.toLowerCase()))\<close>\<close>

definition someTag :: "'v ContentItem \<Rightarrow> string \<Rightarrow> bool" where
  "someTag item v = list_ex (\<lambda>tag. includesStr (toLowerCase tag) (toLowerCase v)) (tags item)"

text \<open>The body of the loop over \<^verbatim>\<open>Object.entries(parsedQuery.fields)\<close> (lines 89 to 118);
  \<open>matches\<close> is the flag the loop updates.\<close>

definition checkField :: "'v ContentItem \<Rightarrow> bool \<Rightarrow> string \<times> fieldValue \<Rightarrow> bool" where
  "checkField item matches e =
     (let fld = fst e; val = snd e in
      if fld = ''title'' then
        (case val of
           Str v \<Rightarrow> matches \<and> includesStr (toLowerCase (title item)) (toLowerCase v)
         | Arr vs \<Rightarrow> matches)
      else if fld = ''content'' then
        (case val of
           Str v \<Rightarrow>
             (case content item of
                Some c \<Rightarrow> if c \<noteq> [] then matches \<and> includesStr (toLowerCase c) (toLowerCase v)
                          else matches
              | None \<Rightarrow> matches)
         | Arr vs \<Rightarrow> matches)
      else if fld = ''type'' then
        (case val of
           Str v \<Rightarrow> matches \<and> typeName (contentType item) = v
         | Arr vs \<Rightarrow> matches)
      else if fld = ''tags'' then
        (case val of
           Str v \<Rightarrow> matches \<and> someTag item v
         | Arr vs \<Rightarrow> matches \<and> list_ex (\<lambda>v. someTag item v) vs)
      else matches)"

text \<open>The body of the loop over \<^verbatim>\<open>parsedQuery.dateFilters\<close> (lines 121 to 144).\<close>

definition checkDate ::
  "(string \<Rightarrow> int option) \<Rightarrow> (int \<Rightarrow> string) \<Rightarrow> 'v ContentItem \<Rightarrow> bool \<Rightarrow> DateFilter \<Rightarrow> bool" where
  "checkDate pd ds item matches dateFilter =
     (let itemDate = pd (if field dateFilter = ''created'' then createdAt item else updatedAt item);
          filterDate = pd (dvalue dateFilter);
          op = operator dateFilter
      in if op = ''>'' then matches \<and> dateGt itemDate filterDate
         else if op = ''<'' then matches \<and> dateLt itemDate filterDate
         else if op = ''>='' then matches \<and> dateGe itemDate filterDate
         else if op = ''<='' then matches \<and> dateLe itemDate filterDate
         else if op = ''='' then matches \<and> toDateString ds itemDate = toDateString ds filterDate
         else matches)"

text \<open>The full-text test (lines 147 to 155); an empty \<^verbatim>\<open>fullText\<close> is falsy.\<close>

definition checkFullText :: "'v ContentItem \<Rightarrow> bool \<Rightarrow> string option \<Rightarrow> bool" where
  "checkFullText item matches ft =
     (case ft of
        None \<Rightarrow> matches
      | Some t \<Rightarrow>
          if t = [] then matches
          else (let searchText = toLowerCase t;
                    fullTextMatch =
                      (includesStr (toLowerCase (title item)) searchText \<or>
                       (case content item of
                          None \<Rightarrow> False
                        | Some c \<Rightarrow> c \<noteq> [] \<and> includesStr (toLowerCase c) searchText) \<or>
                       list_ex (\<lambda>tag. includesStr (toLowerCase tag) searchText) (tags item))
                in matches \<and> fullTextMatch))"

text \<open>The callback of \<^verbatim>\<open>items.filter\<close>.\<close>

definition itemMatches ::
  "(string \<Rightarrow> int option) \<Rightarrow> (int \<Rightarrow> string) \<Rightarrow> ParsedQuery \<Rightarrow> 'v ContentItem \<Rightarrow> bool" where
  "itemMatches pd ds parsedQuery item =
     (let m1 = foldl (checkField item) True (qfields parsedQuery);
          m2 = (case dateFilters parsedQuery of
                  None \<Rightarrow> m1
                | Some dfs \<Rightarrow> foldl (checkDate pd ds item) m1 dfs)
      in checkFullText item m2 (fullText parsedQuery))"

definition filterItems ::
  "(string \<Rightarrow> int option) \<Rightarrow> (int \<Rightarrow> string) \<Rightarrow> 'v ContentItem list \<Rightarrow> ParsedQuery \<Rightarrow> 'v ContentItem list" where
  "filterItems pd ds items parsedQuery = filter (itemMatches pd ds parsedQuery) items"

section \<open>\<^verbatim>\<open>SearchParser.highlight\<close>\<close>








section \<open>\<^verbatim>\<open>SearchParser.getSuggestions\<close>\<close>

text \<open>\<^verbatim>\<open>[...new Set(xs)]\<close>: a set keeps the order of first insertion.\<close>

definition setAdd :: "'a list \<Rightarrow> 'a \<Rightarrow> 'a list" where
  "setAdd acc x = (if x \<in> set acc then acc else acc @ [x])"

definition uniqueOf :: "'a list \<Rightarrow> 'a list" where
  "uniqueOf xs = foldl setAdd [] xs"




section \<open>\<^verbatim>\<open>SearchParser.validateQuery\<close>\<close>

record Validation =
  isValid :: bool
  error :: "string option"

definition validFields :: "string list" where
  "validFields = [''title'', ''content'', ''tags'', ''type'', ''created'', ''updated'']"

text \<open>\<^verbatim>\<open>/"/g\<close> and \<^verbatim>\<open>/(\w+):/g\<close>\<close>

definition dquoteRx :: regex where
  "dquoteRx = Cls (\<lambda>c. c = CHR 0x22)"

definition nameRx :: regex where
  "nameRx = Seq (Plus (Cls isWord)) (Cls isColon)"

definition invalidFieldsOf :: "string list \<Rightarrow> string list" where
  "invalidFieldsOf fieldMatches =
     filter (\<lambda>fld. fld \<notin> set validFields) (map (replaceFirst '':'' []) fieldMatches)"

definition validateQuery :: "string \<Rightarrow> Validation" where
  "validateQuery query =
     (if trim query = [] then \<lparr>isValid = False, error = Some ''Query cannot be empty''\<rparr>
      else if (case matchAll dquoteRx query of
                 None \<Rightarrow> False
               | Some quotes \<Rightarrow> length quotes mod 2 \<noteq> 0)
      then \<lparr>isValid = False, error = Some ''Unmatched quotes in query''\<rparr>
      else (case matchAll nameRx query of
              None \<Rightarrow> \<lparr>isValid = True, error = None\<rparr>
            | Some fieldMatches \<Rightarrow>
                (let invalidFields = invalidFieldsOf fieldMatches in
                 if length invalidFields > 0
                 then \<lparr>isValid = False,
                       error = Some (''Invalid field(s): '' @ join '', '' invalidFields @
                                     ''. Valid fields: '' @ join '', '' validFields)\<rparr>
                 else \<lparr>isValid = True, error = None\<rparr>)))"

section \<open>Notions of the specification\<close>



text \<open>A text in which some comparison character is directly followed by a character
  that is no line terminator.\<close>

fun cmpFollowed :: "string \<Rightarrow> bool" where
  "cmpFollowed (a # b # cs) = ((isCmp a \<and> isDot b) \<or> cmpFollowed (b # cs))"
| "cmpFollowed [a] = False"
| "cmpFollowed [] = False"

text \<open>The term occurs at the beginning of a text, compared without regard to case.\<close>

fun ciPrefix :: "string \<Rightarrow> string \<Rightarrow> bool" where
  "ciPrefix [] s = True"
| "ciPrefix (x # xs) [] = False"
| "ciPrefix (x # xs) (c # cs) = (eqI c x \<and> ciPrefix xs cs)"


text \<open>A text with every run of whitespace replaced by one space.\<close>

function collapseWs :: "string \<Rightarrow> string" where
  "collapseWs [] = []"
| "collapseWs (c # cs) =
     (if isSpace c then CHR '' '' # collapseWs (dropWhile isSpace cs) else c # collapseWs cs)"
  by pat_completeness auto
termination
  by (relation "measure length") (auto simp: length_dropWhile_le le_imp_less_Suc)

text \<open>The names of the \<^verbatim>\<open>word:\<close> patterns of a text, from left to right: a run of word
  characters that ends directly before a colon; the scan goes on behind the colon.\<close>

function colonNames :: "string \<Rightarrow> string list" where
  "colonNames [] = []"
| "colonNames (c # cs) =
     (if isWord c \<and> take 1 (dropWhile isWord cs) = '':''
      then (c # takeWhile isWord cs) # colonNames (drop 1 (dropWhile isWord cs))
      else colonNames cs)"
  by pat_completeness auto
termination
  by (relation "measure length")
    (auto simp: less_Suc_eq_le intro: order_trans [OF diff_le_self length_dropWhile_le])

section \<open>Sample data\<close>

text \<open>The first two records of \<^verbatim>\<open>mockItems\<close>, the sample data of the application, and the
  second one without its content. They have no metadata.\<close>

definition mockItem1 :: "unit ContentItem" where
  "mockItem1 = \<lparr>itemId = ''1'', userId = ''user1'', title = ''React Best Practices'',
     contentType = Note,
     content = Some ''Here are some important React best practices to follow when building applications...'',
     fileUrl = None, fileSize = None, mimeType = None,
     tags = [''react'', ''javascript'', ''frontend''],
     collectionId = None, metadata = None,
     createdAt = ''2024-01-15T10:30:00Z'', updatedAt = ''2024-01-15T10:30:00Z''\<rparr>"

definition mockItem2 :: "unit ContentItem" where
  "mockItem2 = \<lparr>itemId = ''2'', userId = ''user1'', title = ''Design System Documentation'',
     contentType = Document,
     content = Some ''Complete guide to our design system including colors, typography, and components.'',
     fileUrl = Some ''https://example.com/design-system.pdf'', fileSize = None, mimeType = None,
     tags = [''design'', ''documentation'', ''ui''],
     collectionId = None, metadata = None,
     createdAt = ''2024-01-14T14:20:00Z'', updatedAt = ''2024-01-14T14:20:00Z''\<rparr>"

definition bareItem :: "unit ContentItem" where
  "bareItem = mockItem2\<lparr>content := None\<rparr>"

definition emptyQuery :: ParsedQuery where
  "emptyQuery = \<lparr>qfields = [], operators = [], fullText = None, dateFilters = Some []\<rparr>"

text \<open>A platform on which no text is a valid date.\<close>

definition noDate :: "string \<Rightarrow> int option" where
  "noDate s = None"

definition noDateString :: "int \<Rightarrow> string" where
  "noDateString t = []"

section \<open>Facts about the matcher\<close>

text \<open>The equations of the two stars and of the scan rewrite their own right-hand sides;
  they are unfolded by hand.\<close>

declare gscan.simps [simp del]
declare ms.simps(5) [simp del]
declare ms.simps(6) [simp del]
declare execGroups2.simps [simp del]

lemma adv_zero: "\<exists>k. k \<le> length (snd z) \<and> z = (rev (take k (snd z)) @ fst z, drop k (snd z))"
  by (rule exI [of _ 0]) simp

lemma ms_adv:
  "z' \<in> set (ms r z) \<Longrightarrow>
   \<exists>k. k \<le> length (snd z) \<and> z' = (rev (take k (snd z)) @ fst z, drop k (snd z))"
proof (induction r z arbitrary: z' rule: ms.induct)
  case (1 z)
  then show ?case by (auto intro: exI [of _ 0])
next
  case (2 p pre suf)
  then show ?case by (auto split: list.splits if_splits intro: exI [of _ 1])
next
  case (3 a b z)
  from "3.prems" obtain z1 where z1: "z1 \<in> set (ms a z)" and z': "z' \<in> set (ms b z1)"
    by auto
  from "3.IH"(1) [OF z1] obtain k1 where
    k1: "k1 \<le> length (snd z)" "z1 = (rev (take k1 (snd z)) @ fst z, drop k1 (snd z))"
    by blast
  from "3.IH"(2) [OF z1 z'] obtain k2 where
    k2: "k2 \<le> length (snd z1)" "z' = (rev (take k2 (snd z1)) @ fst z1, drop k2 (snd z1))"
    by blast
  have "k1 + k2 \<le> length (snd z)" using k1 k2 by simp
  moreover have "z' = (rev (take (k1 + k2) (snd z)) @ fst z, drop (k1 + k2) (snd z))"
    using k1 k2 by (simp add: take_add add.commute)
  ultimately show ?case by blast
next
  case (4 a b z)
  from "4.prems" have "z' \<in> set (ms a z) \<or> z' \<in> set (ms b z)" by simp
  then show ?case using "4.IH" by blast
next
  case (5 r z)
  from "5.prems" consider "z' = z"
    | z1 where "z1 \<in> set (ms r z)" "length (snd z1) < length (snd z)" "z' \<in> set (ms (Star r) z1)"
    by (subst (asm) ms.simps) (auto split: if_splits)
  then show ?case
  proof cases
    case 1
    then show ?thesis by (auto intro: exI [of _ 0])
  next
    case (2 z1)
    from "5.IH"(1) [OF 2(1)] obtain k1 where
      k1: "k1 \<le> length (snd z)" "z1 = (rev (take k1 (snd z)) @ fst z, drop k1 (snd z))"
      by blast
    from "5.IH"(2) [OF 2(1) 2(2) 2(3)] obtain k2 where
      k2: "k2 \<le> length (snd z1)" "z' = (rev (take k2 (snd z1)) @ fst z1, drop k2 (snd z1))"
      by blast
    have "k1 + k2 \<le> length (snd z)" using k1 k2 by simp
    moreover have "z' = (rev (take (k1 + k2) (snd z)) @ fst z, drop (k1 + k2) (snd z))"
      using k1 k2 by (simp add: take_add add.commute)
    ultimately show ?thesis by blast
  qed
next
  case (6 r z)
  from "6.prems" consider "z' = z"
    | z1 where "z1 \<in> set (ms r z)" "length (snd z1) < length (snd z)" "z' \<in> set (ms (StarLazy r) z1)"
    by (subst (asm) ms.simps) (auto split: if_splits)
  then show ?case
  proof cases
    case 1
    then show ?thesis by (auto intro: exI [of _ 0])
  next
    case (2 z1)
    from "6.IH"(1) [OF 2(1)] obtain k1 where
      k1: "k1 \<le> length (snd z)" "z1 = (rev (take k1 (snd z)) @ fst z, drop k1 (snd z))"
      by blast
    from "6.IH"(2) [OF 2(1) 2(2) 2(3)] obtain k2 where
      k2: "k2 \<le> length (snd z1)" "z' = (rev (take k2 (snd z1)) @ fst z1, drop k2 (snd z1))"
      by blast
    have "k1 + k2 \<le> length (snd z)" using k1 k2 by simp
    moreover have "z' = (rev (take (k1 + k2) (snd z)) @ fst z, drop (k1 + k2) (snd z))"
      using k1 k2 by (simp add: take_add add.commute)
    ultimately show ?thesis by blast
  qed
next
  case (7 r z)
  then have "z' = z" by (auto split: if_splits)
  with adv_zero [of z] show ?case by blast
next
  case (8 z)
  then have "z' = z" by (auto split: if_splits)
  with adv_zero [of z] show ?case by blast
next
  case (9 z)
  then have "z' = z" by (auto split: if_splits)
  with adv_zero [of z] show ?case by blast
next
  case (10 z)
  then have "z' = z" by (auto split: if_splits)
  with adv_zero [of z] show ?case by blast
qed

lemma ms_take_drop:
  assumes "z' \<in> set (ms r (pre, suf))"
  shows "take (length suf - length (snd z')) suf @ snd z' = suf"
    and "set (snd z') \<subseteq> set suf"
    and "length (snd z') \<le> length suf"
proof -
  from ms_adv [OF assms] obtain k where k: "k \<le> length suf" "snd z' = drop k suf"
    by auto
  show "take (length suf - length (snd z')) suf @ snd z' = suf"
    using k by simp
  show "set (snd z') \<subseteq> set suf"
    using k by (auto dest: in_set_dropD)
  show "length (snd z') \<le> length suf"
    using k by simp
qed

lemma gscan_concat:
  "concat (map (\<lambda>sg. fst sg @ snd sg) (fst (gscan r pre suf gap))) @ snd (gscan r pre suf gap)
     = rev gap @ suf"
proof (induction r pre suf gap rule: gscan.induct)
  case (1 r pre suf gap)
  show ?case
  proof (cases "ms r (pre, suf)")
    case Nil
    show ?thesis
    proof (cases suf)
      case Nil
      with \<open>ms r (pre, suf) = []\<close> show ?thesis by (subst (1 2) gscan.simps) simp
    next
      case (Cons c cs)
      with \<open>ms r (pre, suf) = []\<close> "1.IH"(1) [OF \<open>ms r (pre, suf) = []\<close> Cons] show ?thesis
        by (subst (1 2) gscan.simps) simp
    qed
  next
    case (Cons z zs)
    then have zin: "z \<in> set (ms r (pre, suf))" by simp
    show ?thesis
    proof (cases "length (snd z) < length suf")
      case True
      with Cons "1.IH"(2) [OF Cons True] ms_take_drop(1) [OF zin] show ?thesis
        by (subst (1 2) gscan.simps) (simp add: consSeg_def)
    next
      case False
      show ?thesis
      proof (cases suf)
        case Nil
        with Cons False show ?thesis by (subst (1 2) gscan.simps) simp
      next
        case (Cons c cs)
        with \<open>ms r (pre, suf) = z # zs\<close> False "1.IH"(3) [OF \<open>ms r (pre, suf) = z # zs\<close> False Cons]
        show ?thesis
          by (subst (1 2) gscan.simps) (simp add: consSeg_def)
      qed
    qed
  qed
qed

lemma gscan_no_match:
  "(\<And>p s. set s \<subseteq> set suf \<Longrightarrow> ms r (p, s) = []) \<Longrightarrow> gscan r pre suf gap = ([], rev gap @ suf)"
proof (induction suf arbitrary: pre gap)
  case Nil
  then show ?case by (subst gscan.simps) simp
next
  case (Cons c cs)
  have "ms r (pre, c # cs) = []" using Cons.prems by simp
  moreover have "gscan r (c # pre) cs (c # gap) = ([], rev (c # gap) @ cs)"
    by (rule Cons.IH) (use Cons.prems in auto)
  ultimately show ?case by (subst gscan.simps) simp
qed

lemma ms_Star_Cls:
  "ms (Star (Cls p)) (pre, suf) =
     (case suf of
        [] \<Rightarrow> [(pre, [])]
      | c # cs \<Rightarrow> if p c then ms (Star (Cls p)) (c # pre, cs) @ [(pre, suf)] else [(pre, suf)])"
  by (subst ms.simps) (auto split: list.splits)

lemma ms_Star_Cls_hd:
  "\<exists>rest. ms (Star (Cls p)) (pre, suf) = (rev (takeWhile p suf) @ pre, dropWhile p suf) # rest"
proof (induction suf arbitrary: pre)
  case Nil
  show ?case by (subst ms_Star_Cls) simp
next
  case (Cons c cs)
  from Cons.IH [of "c # pre"] obtain rest where
    "ms (Star (Cls p)) (c # pre, cs) = (rev (takeWhile p cs) @ c # pre, dropWhile p cs) # rest"
    by blast
  then show ?case by (subst ms_Star_Cls) simp
qed

lemma ms_Plus_Cls:
  "ms (Plus (Cls p)) (pre, suf) =
     (case suf of [] \<Rightarrow> [] | c # cs \<Rightarrow> if p c then ms (Star (Cls p)) (c # pre, cs) else [])"
  by (simp add: Plus_def split: list.splits)

lemma ms_Plus_Cls_hd:
  "p c \<Longrightarrow> \<exists>rest. ms (Plus (Cls p)) (pre, c # cs)
      = (rev (takeWhile p cs) @ c # pre, dropWhile p cs) # rest"
  using ms_Star_Cls_hd [of p "c # pre" cs] by (simp add: ms_Plus_Cls)

lemma ms_Star_nonempty: "ms (Star r) z \<noteq> []"
  by (subst ms.simps) simp

lemma ms_Seq_Cls_none:
  assumes "\<forall>c\<in>set suf. \<not> p c"
  shows "ms (Seq a (Seq (Cls p) x)) (pre, suf) = []"
proof -
  have "ms (Seq (Cls p) x) z1 = []" if "z1 \<in> set (ms a (pre, suf))" for z1
  proof -
    from ms_take_drop(2) [OF that] assms have "\<forall>c\<in>set (snd z1). \<not> p c"
      by auto
    then have "ms (Cls p) (fst z1, snd z1) = []"
      by (cases "snd z1") auto
    then show ?thesis by simp
  qed
  then show ?thesis by simp
qed

lemma gscan_Cls_matches:
  "map snd (fst (gscan (Cls p) pre suf gap)) = map (\<lambda>c. [c]) (filter p suf)"
proof (induction suf arbitrary: pre gap)
  case Nil
  show ?case by (subst gscan.simps) simp
next
  case (Cons c cs)
  show ?case
    by (subst gscan.simps) (simp add: Cons.IH consSeg_def)
qed


lemma matchAll_Cls:
  "matchAll (Cls p) s = (if filter p s = [] then None else Some (map (\<lambda>c. [c]) (filter p s)))"
proof -
  have "map snd (fst (gscan (Cls p) [] s [])) = map (\<lambda>c. [c]) (filter p s)"
    by (rule gscan_Cls_matches)
  then show ?thesis
    by (cases "fst (gscan (Cls p) [] s [])") (auto simp: matchAll_def)
qed

lemma gscan_gaps_subset:
  assumes "sg \<in> set (fst (gscan r pre suf gap))"
  shows "set (fst sg) \<subseteq> set gap \<union> set suf"
proof -
  have "set (concat (map (\<lambda>sg. fst sg @ snd sg) (fst (gscan r pre suf gap)))
          @ snd (gscan r pre suf gap)) = set (rev gap @ suf)"
    by (simp only: gscan_concat)
  with assms show ?thesis by auto
qed

lemma gscan_tail_subset: "set (snd (gscan r pre suf gap)) \<subseteq> set gap \<union> set suf"
proof -
  have "set (concat (map (\<lambda>sg. fst sg @ snd sg) (fst (gscan r pre suf gap)))
          @ snd (gscan r pre suf gap)) = set (rev gap @ suf)"
    by (simp only: gscan_concat)
  then show ?thesis by auto
qed

lemma set_replaceAll:
  "set (replaceAll r (\<lambda>_. rep) s) \<subseteq> set s \<union> set rep"
proof
  fix c
  assume "c \<in> set (replaceAll r (\<lambda>_. rep) s)"
  then have "(\<exists>sg\<in>set (fst (gscan r [] s [])). c \<in> set (fst sg)) \<or> c \<in> set rep
      \<or> c \<in> set (snd (gscan r [] s []))"
    by (auto simp: replaceAll_def Let_def split: if_splits)
  then show "c \<in> set s \<union> set rep"
    using gscan_gaps_subset [of _ r "[]" s "[]"] gscan_tail_subset [of r "[]" s "[]"]
    by auto
qed

lemma concat_map_nonempty:
  "x \<in> set xs \<Longrightarrow> g x \<noteq> [] \<Longrightarrow> f = (\<lambda>z. map (h z) (g z)) \<Longrightarrow> concat (map f xs) \<noteq> []"
  by auto

section \<open>The evaluator is a conjunction\<close>

lemma checkField_flag: "checkField item m e = (m \<and> checkField item True e)"
  by (auto simp: checkField_def Let_def split: fieldValue.splits option.splits)

lemma checkDate_flag: "checkDate pd ds item m d = (m \<and> checkDate pd ds item True d)"
  by (auto simp: checkDate_def Let_def)

lemma checkFullText_flag: "checkFullText item m ft = (m \<and> checkFullText item True ft)"
  by (auto simp: checkFullText_def Let_def split: option.splits)

lemma foldl_checkField:
  "foldl (checkField item) m es = (m \<and> list_all (\<lambda>e. checkField item True e) es)"
proof (induction es arbitrary: m)
  case Nil
  show ?case by simp
next
  case (Cons e es)
  show ?case
    using Cons.IH [of "checkField item m e"] checkField_flag [of item m e] by auto
qed

lemma foldl_checkDate:
  "foldl (checkDate pd ds item) m dfs = (m \<and> list_all (\<lambda>d. checkDate pd ds item True d) dfs)"
proof (induction dfs arbitrary: m)
  case Nil
  show ?case by simp
next
  case (Cons d dfs)
  show ?case
    using Cons.IH [of "checkDate pd ds item m d"] checkDate_flag [of pd ds item m d] by auto
qed

lemma list_all_filter_skip:
  "(\<And>e. \<not> Q e \<Longrightarrow> P e) \<Longrightarrow> list_all P (filter Q xs) = list_all P xs"
  by (induction xs) auto

lemma itemMatches_conj:
  "itemMatches pd ds q item =
     (list_all (\<lambda>e. checkField item True e) (qfields q) \<and>
      (case dateFilters q of None \<Rightarrow> True
       | Some dfs \<Rightarrow> list_all (\<lambda>d. checkDate pd ds item True d) dfs) \<and>
      checkFullText item True (fullText q))"
  unfolding itemMatches_def Let_def
  by (subst checkFullText_flag) (auto simp: foldl_checkField foldl_checkDate split: option.splits)



text \<open>
  C9. Filtering is idempotent: filtering the result of \<^verbatim>\<open>filter(records, q)\<close> by \<open>q\<close> again
  changes nothing.
\<close>

theorem filter_idempotent:
  "filterItems pd ds (filterItems pd ds items q) q = filterItems pd ds items q"
  by (simp add: filterItems_def)

text \<open>
  C10. On a record without content a \<^verbatim>\<open>content\<close> entry of \<open>fields\<close> leaves the flag as it
  is: the record matches a query exactly when it matches the query without its
  \<^verbatim>\<open>content\<close> entries, and a query made of a \<^verbatim>\<open>content\<close> clause only keeps the record.
\<close>

theorem content_clause_without_content:
  "content item = None \<Longrightarrow>
     checkField item m (''content'', v) = m
   \<and> itemMatches pd ds q item =
       itemMatches pd ds (q\<lparr>qfields := filter (\<lambda>e. fst e \<noteq> ''content'') (qfields q)\<rparr>) item
   \<and> (item \<in> set items \<longrightarrow>
        item \<in> set (filterItems pd ds items
          \<lparr>qfields = [(''content'', v)], operators = [], fullText = None, dateFilters = Some []\<rparr>))"
proof (intro conjI impI)
  assume c: "content item = None"
  have skip: "\<And>e. fst e = ''content'' \<Longrightarrow> checkField item True e"
    using c by (auto simp: checkField_def Let_def split: fieldValue.splits)
  show "checkField item m (''content'', v) = m"
    using c by (auto simp: checkField_def Let_def split: fieldValue.splits)
  have "list_all (\<lambda>e. checkField item True e) (qfields q) =
        list_all (\<lambda>e. checkField item True e) (filter (\<lambda>e. fst e \<noteq> ''content'') (qfields q))"
    using skip by (intro list_all_filter_skip [symmetric]) blast
  then show "itemMatches pd ds q item =
       itemMatches pd ds (q\<lparr>qfields := filter (\<lambda>e. fst e \<noteq> ''content'') (qfields q)\<rparr>) item"
    by (simp add: itemMatches_conj)
  assume "item \<in> set items"
  then show "item \<in> set (filterItems pd ds items
          \<lparr>qfields = [(''content'', v)], operators = [], fullText = None, dateFilters = Some []\<rparr>)"
    using skip [of "(''content'', v)"]
    by (simp add: filterItems_def itemMatches_conj checkFullText_def)
qed

theorem content_clause_without_content_witness:
  "content bareItem = None \<and>
   filterItems noDate noDateString [mockItem1, bareItem]
     \<lparr>qfields = [(''content'', Str ''guide'')], operators = [], fullText = None,
      dateFilters = Some []\<rparr> = [bareItem]"
proof -
  have c: "content bareItem = None"
    by (simp add: bareItem_def)
  have "\<not> itemMatches noDate noDateString
     \<lparr>qfields = [(''content'', Str ''guide'')], operators = [], fullText = None,
      dateFilters = Some []\<rparr> mockItem1"
    by code_simp
  moreover have "bareItem \<in> set (filterItems noDate noDateString [mockItem1, bareItem]
     \<lparr>qfields = [(''content'', Str ''guide'')], operators = [], fullText = None,
      dateFilters = Some []\<rparr>)"
    using content_clause_without_content [OF c, where items = "[mockItem1, bareItem]"
        and m = True and v = "Str ''guide''" and pd = noDate and ds = noDateString
        and q = emptyQuery]
    by simp
  ultimately show ?thesis
    using c by (auto simp: filterItems_def split: if_splits)
qed

section \<open>Parsing the advertised example and the empty query\<close>

text \<open>
  C1. The search box advertises the query \<^verbatim>\<open>type:document AND tags:react\<close>. On it the
  clause pattern takes \<^verbatim>\<open>AND\<close> into the value of \<^verbatim>\<open>type\<close>, and no connective is left to
  record.
\<close>

theorem parse_placeholder_example:
  "parse ''type:document AND tags:react'' =
     \<lparr>qfields = [(''type'', Str ''document AND''), (''tags'', Str ''react'')],
      operators = [], fullText = None, dateFilters = Some []\<rparr>"
  by code_simp

text \<open>
  C2. The three containers of a parsed query are always present, but the branch without
  clauses stores the normalised text unchecked: on the empty query and on blank queries
  \<^verbatim>\<open>fullText\<close> is the empty string.
\<close>

theorem parse_empty_fullText:
  "fullText (parse '''') = Some '''' \<and> fullText (parse ''   '') = Some ''''"
  by code_simp

section \<open>Validation\<close>

lemma quotes_odd:
  "(case matchAll dquoteRx q of None \<Rightarrow> False | Some quotes \<Rightarrow> length quotes mod 2 \<noteq> 0)
     = odd (length (filter (\<lambda>c. c = CHR 0x22) q))"
  by (simp add: dquoteRx_def matchAll_Cls odd_iff_mod_2_eq_one)

lemma star_then_cls:
  assumes "\<And>x. q x \<Longrightarrow> \<not> p x"
  shows "concat (map (ms (Cls q)) (ms (Star (Cls p)) (pre, cs))) =
     (case dropWhile p cs of
        [] \<Rightarrow> []
      | d # ds \<Rightarrow> if q d then [(d # rev (takeWhile p cs) @ pre, ds)] else [])"
proof (induction cs arbitrary: pre)
  case Nil
  show ?case by (subst ms_Star_Cls) simp
next
  case (Cons x xs)
  show ?case
  proof (cases "p x")
    case True
    then have nq: "\<not> q x" using assms by blast
    have u: "ms (Star (Cls p)) (pre, x # xs) = ms (Star (Cls p)) (x # pre, xs) @ [(pre, x # xs)]"
      using True by (subst ms_Star_Cls) simp
    have tw: "takeWhile p (x # xs) = x # takeWhile p xs"
      and dw: "dropWhile p (x # xs) = dropWhile p xs"
      using True by simp_all
    have r: "rev (x # takeWhile p xs) @ pre = rev (takeWhile p xs) @ x # pre"
      by simp
    show ?thesis
      unfolding u tw dw r using nq by (simp add: Cons.IH)
  next
    case False
    then show ?thesis by (subst ms_Star_Cls) simp
  qed
qed

lemma not_word_colon: "isColon x \<Longrightarrow> \<not> isWord x"
  by (simp add: isColon_def isWord_def of_c_def Let_def)

lemma ms_nameRx_Cons:
  "ms nameRx (pre, c # cs) =
     (if isWord c
      then (case dropWhile isWord cs of
              [] \<Rightarrow> []
            | d # ds \<Rightarrow> if isColon d then [(d # rev (takeWhile isWord cs) @ c # pre, ds)] else [])
      else [])"
  using star_then_cls [of isColon isWord "c # pre" cs, OF not_word_colon]
  by (simp add: nameRx_def Plus_def)

lemma ms_nameRx_Nil: "ms nameRx (pre, []) = []"
  by (simp add: nameRx_def Plus_def)

lemma gscan_nameRx:
  "map snd (fst (gscan nameRx pre suf gap)) = map (\<lambda>n. n @ '':'') (colonNames suf)"
proof (induction "length suf" arbitrary: pre suf gap rule: less_induct)
  case less
  show ?case
  proof (cases suf)
    case Nil
    then show ?thesis by (subst gscan.simps) (simp add: ms_nameRx_Nil)
  next
    case (Cons c cs)
    show ?thesis
    proof (cases "isWord c \<and> take 1 (dropWhile isWord cs) = '':''")
      case True
      then obtain ds where dw: "dropWhile isWord cs = CHR '':'' # ds"
        by (cases "dropWhile isWord cs") auto
      have cs: "cs = takeWhile isWord cs @ CHR '':'' # ds"
        using dw takeWhile_dropWhile_id [of isWord cs] by simp
      have len: "length ds < length (c # cs)"
        by (subst cs) simp
      have tk: "take (length (c # cs) - length ds) (c # cs) = c # takeWhile isWord cs @ '':''"
        by (subst (1 2) cs) simp
      have m: "ms nameRx (pre, c # cs) = [(CHR '':'' # rev (takeWhile isWord cs) @ c # pre, ds)]"
        using True dw by (simp add: ms_nameRx_Cons isColon_def)
      have ih: "map snd (fst (gscan nameRx (CHR '':'' # rev (takeWhile isWord cs) @ c # pre) ds []))
                  = map (\<lambda>n. n @ '':'') (colonNames ds)"
        by (rule less.hyps) (use len Cons in simp)
      have "colonNames (c # cs) = (c # takeWhile isWord cs) # colonNames ds"
        using True dw by simp
      then show ?thesis
        unfolding Cons
        by (subst gscan.simps) (simp only: m list.case snd_conv fst_conv len if_True consSeg_def
            list.map tk ih append_Cons append_Nil append_assoc)
    next
      case False
      then have m: "ms nameRx (pre, c # cs) = []"
        by (auto simp: ms_nameRx_Cons isColon_def split: list.splits)
      have ih: "map snd (fst (gscan nameRx (c # pre) cs (c # gap)))
                  = map (\<lambda>n. n @ '':'') (colonNames cs)"
        by (rule less.hyps) (simp add: Cons)
      have "colonNames (c # cs) = colonNames cs"
        using False by (simp only: colonNames.simps if_False)
      then show ?thesis
        unfolding Cons
        by (subst gscan.simps) (simp only: m list.case ih)
    qed
  qed
qed

lemma matchAll_nameRx:
  "matchAll nameRx q =
     (if colonNames q = [] then None else Some (map (\<lambda>n. n @ '':'') (colonNames q)))"
proof -
  have "map snd (fst (gscan nameRx [] q [])) = map (\<lambda>n. n @ '':'') (colonNames q)"
    by (rule gscan_nameRx)
  then show ?thesis
    by (cases "fst (gscan nameRx [] q [])") (auto simp: matchAll_def)
qed

lemma colonNames_word: "n \<in> set (colonNames s) \<Longrightarrow> \<forall>c\<in>set n. isWord c"
proof (induction s arbitrary: n rule: colonNames.induct)
  case 1
  then show ?case by simp
next
  case (2 c cs)
  show ?case
  proof (cases "isWord c \<and> take 1 (dropWhile isWord cs) = '':''")
    case True
    with "2.prems" have
      "n = c # takeWhile isWord cs \<or> n \<in> set (colonNames (drop 1 (dropWhile isWord cs)))"
      by simp
    then show ?thesis
    proof
      assume "n = c # takeWhile isWord cs"
      with True show ?thesis by (auto dest: set_takeWhileD)
    next
      assume "n \<in> set (colonNames (drop 1 (dropWhile isWord cs)))"
      then show ?thesis by (rule "2.IH"(1) [OF True])
    qed
  next
    case False
    with "2.prems" have "n \<in> set (colonNames cs)"
      by (simp only: colonNames.simps if_False)
    then show ?thesis by (rule "2.IH"(2) [OF False])
  qed
qed

lemma replaceFirst_colon:
  "CHR '':'' \<notin> set n \<Longrightarrow> replaceFirst '':'' [] (n @ '':'') = n"
  by (induction n) auto

lemma invalidFieldsOf_colonNames:
  "invalidFieldsOf (map (\<lambda>n. n @ '':'') (colonNames q))
     = filter (\<lambda>n. n \<notin> set validFields) (colonNames q)"
proof -
  have "replaceFirst '':'' [] (n @ '':'') = n" if "n \<in> set (colonNames q)" for n
  proof (rule replaceFirst_colon)
    show "CHR '':'' \<notin> set n"
      using colonNames_word [OF that] not_word_colon [of "CHR '':''"]
      by (auto simp: isColon_def)
  qed
  then have "map (replaceFirst '':'' []) (map (\<lambda>n. n @ '':'') (colonNames q)) = colonNames q"
    by (simp add: map_idI)
  then show ?thesis
    by (simp add: invalidFieldsOf_def)
qed

text \<open>
  C3 (as amended). On a non-blank query with an even number of double quotes in which the
  name of some \<^verbatim>\<open>word:\<close> pattern is outside the allowed set, \<^verbatim>\<open>validateQuery\<close> reports the
  query invalid, and the message lists the names of the patterns that are outside the
  allowed set, from left to right and once for each occurrence, and then the allowed set.
\<close>

theorem validate_unknown_fields:
  assumes "trim q \<noteq> []"
    and "even (length (filter (\<lambda>c. c = CHR 0x22) q))"
    and "filter (\<lambda>n. n \<notin> {''title'', ''content'', ''tags'', ''type'', ''created'', ''updated''})
           (colonNames q) \<noteq> []"
  shows "validateQuery q =
           \<lparr>isValid = False,
            error = Some (''Invalid field(s): '' @
              join '', ''
                (filter (\<lambda>n. n \<notin> {''title'', ''content'', ''tags'', ''type'', ''created'', ''updated''})
                   (colonNames q)) @
              ''. Valid fields: title, content, tags, type, created, updated'')\<rparr>"
proof -
  have v: "set validFields = {''title'', ''content'', ''tags'', ''type'', ''created'', ''updated''}"
    by (auto simp: validFields_def)
  have j: "join '', '' validFields = ''title, content, tags, type, created, updated''"
    by (simp add: validFields_def)
  have ne: "colonNames q \<noteq> []"
    using assms(3) by auto
  have inv: "invalidFieldsOf (map (\<lambda>n. n @ '':'') (colonNames q))
      = filter (\<lambda>n. n \<notin> {''title'', ''content'', ''tags'', ''type'', ''created'', ''updated''})
          (colonNames q)"
    unfolding invalidFieldsOf_colonNames v ..
  show ?thesis
    using assms(1,2) ne assms(3) unfolding validateQuery_def quotes_odd matchAll_nameRx Let_def j
    by (simp add: inv del: set_simps insert_iff empty_iff)
qed


theorem validate_unknown_fields_witness:
  "trim ''title:a author:b year:c author:d zeta:e'' \<noteq> [] \<and>
   even (length (filter (\<lambda>c. c = CHR 0x22) ''title:a author:b year:c author:d zeta:e'')) \<and>
   colonNames ''title:a author:b year:c author:d zeta:e''
     = [''title'', ''author'', ''year'', ''author'', ''zeta''] \<and>
   validateQuery ''title:a author:b year:c author:d zeta:e'' =
     \<lparr>isValid = False,
      error = Some ''Invalid field(s): author, year, author, zeta. Valid fields: title, content, tags, type, created, updated''\<rparr>"
proof -
  have h1: "trim ''title:a author:b year:c author:d zeta:e'' \<noteq> []"
    by code_simp
  have h2: "even (length (filter (\<lambda>c. c = CHR 0x22) ''title:a author:b year:c author:d zeta:e''))"
    by simp
  have h3: "colonNames ''title:a author:b year:c author:d zeta:e''
     = [''title'', ''author'', ''year'', ''author'', ''zeta'']"
    by code_simp
  have h4: "filter (\<lambda>n. n \<notin> {''title'', ''content'', ''tags'', ''type'', ''created'', ''updated''})
           (colonNames ''title:a author:b year:c author:d zeta:e'')
     = [''author'', ''year'', ''author'', ''zeta'']"
    unfolding h3 by simp
  have h5: "filter (\<lambda>n. n \<notin> {''title'', ''content'', ''tags'', ''type'', ''created'', ''updated''})
           (colonNames ''title:a author:b year:c author:d zeta:e'') \<noteq> []"
    unfolding h4 by simp
  show ?thesis
    using validate_unknown_fields [OF h1 h2 h5] h1 h2 h3 unfolding h4 by simp
qed

text \<open>The message repeats a name that occurs twice; the list without duplicates that
  the claim describes is not what is reported.\<close>

theorem validate_not_deduplicated:
  "colonNames ''bogus:x bogus:y other:z'' = [''bogus'', ''bogus'', ''other''] \<and>
   uniqueOf [''bogus'', ''bogus'', ''other''] = [''bogus'', ''other''] \<and>
   error (validateQuery ''bogus:x bogus:y other:z'') =
     Some ''Invalid field(s): bogus, bogus, other. Valid fields: title, content, tags, type, created, updated'' \<and>
   error (validateQuery ''bogus:x bogus:y other:z'') \<noteq>
     Some (''Invalid field(s): '' @ join '', '' (uniqueOf [''bogus'', ''bogus'', ''other'']) @
           ''. Valid fields: title, content, tags, type, created, updated'')"
  by code_simp

section \<open>Suggestions\<close>














section \<open>Queries without a colon\<close>

lemma set_trim: "set (trim s) \<subseteq> set s"
  unfolding trim_def by (auto dest!: set_dropWhileD)

lemma normalizeQuery_no_colon:
  "CHR '':'' \<notin> set q \<Longrightarrow> CHR '':'' \<notin> set (normalizeQuery q)"
  using set_replaceAll [of spacesRx "'' ''" "trim q"] set_trim [of q]
  by (auto simp: normalizeQuery_def)

lemma matchAll_fieldRx_no_colon:
  assumes "CHR '':'' \<notin> set s"
  shows "matchAll fieldRx s = None"
proof -
  have "gscan fieldRx [] s [] = ([], rev [] @ s)"
  proof (rule gscan_no_match)
    fix p t
    assume "set t \<subseteq> set s"
    with assms have "\<forall>c\<in>set t. \<not> isColon c"
      by (auto simp: isColon_def)
    then show "ms fieldRx (p, t) = []"
      unfolding fieldRx_def by (rule ms_Seq_Cls_none)
  qed
  then show ?thesis by (simp add: matchAll_def)
qed

lemma gscan_spaces_collapse:
  "concat (map (\<lambda>sg. fst sg @ '' '') (fst (gscan spacesRx pre suf gap)))
     @ snd (gscan spacesRx pre suf gap)
   = rev gap @ collapseWs suf"
proof (induction "length suf" arbitrary: pre suf gap rule: less_induct)
  case less
  show ?case
  proof (cases suf)
    case Nil
    then show ?thesis
      by (subst (1 2) gscan.simps) (simp add: spacesRx_def ms_Plus_Cls)
  next
    case (Cons c cs)
    show ?thesis
    proof (cases "isSpace c")
      case False
      have "concat (map (\<lambda>sg. fst sg @ '' '') (fst (gscan spacesRx (c # pre) cs (c # gap))))
              @ snd (gscan spacesRx (c # pre) cs (c # gap))
            = rev (c # gap) @ collapseWs cs"
        by (rule less.hyps) (simp add: Cons)
      then show ?thesis
        using Cons False by (subst (1 2) gscan.simps) (simp add: spacesRx_def ms_Plus_Cls)
    next
      case True
      from ms_Plus_Cls_hd [where p = isSpace and c = c and pre = pre and cs = cs, OF True]
      obtain rest where
        m: "ms (Plus (Cls isSpace)) (pre, c # cs)
              = (rev (takeWhile isSpace cs) @ c # pre, dropWhile isSpace cs) # rest"
        by blast
      have len: "length (dropWhile isSpace cs) < length (c # cs)"
        by (simp add: length_dropWhile_le le_imp_less_Suc)
      have "concat (map (\<lambda>sg. fst sg @ '' '')
                (fst (gscan spacesRx (rev (takeWhile isSpace cs) @ c # pre) (dropWhile isSpace cs) [])))
              @ snd (gscan spacesRx (rev (takeWhile isSpace cs) @ c # pre) (dropWhile isSpace cs) [])
            = rev [] @ collapseWs (dropWhile isSpace cs)"
        by (rule less.hyps) (use Cons len in auto)
      then show ?thesis
        using Cons True len m
        by (subst (1 2) gscan.simps) (simp add: spacesRx_def consSeg_def)
    qed
  qed
qed

lemma normalizeQuery_collapse: "normalizeQuery q = collapseWs (trim q)"
  using gscan_spaces_collapse [of "[]" "trim q" "[]"]
  by (simp add: normalizeQuery_def replaceAll_def Let_def)

text \<open>
  C4. A query without a colon has no clause: the parsed query has no fields, no
  connectives and no date filters, and its full text is the trimmed query with every run
  of whitespace replaced by one space, when that is not empty.
\<close>

theorem parse_without_colon:
  "CHR '':'' \<notin> set q \<Longrightarrow>
     qfields (parse q) = [] \<and> operators (parse q) = [] \<and> dateFilters (parse q) = Some [] \<and>
     (collapseWs (trim q) \<noteq> [] \<longrightarrow> fullText (parse q) = Some (collapseWs (trim q)))"
  using matchAll_fieldRx_no_colon [OF normalizeQuery_no_colon, of q]
  by (simp add: parse_def Let_def normalizeQuery_collapse [symmetric])

theorem parse_without_colon_witness:
  "CHR '':'' \<notin> set ''  react   AND hooks '' \<and>
   collapseWs (trim ''  react   AND hooks '') = ''react AND hooks'' \<and>
   parse ''  react   AND hooks '' =
     \<lparr>qfields = [], operators = [], fullText = Some ''react AND hooks'', dateFilters = Some []\<rparr>"
proof -
  have h1: "CHR '':'' \<notin> set ''  react   AND hooks ''"
    by simp
  have h2: "collapseWs (trim ''  react   AND hooks '') = ''react AND hooks''"
    by code_simp
  show ?thesis
    using parse_without_colon [OF h1] h1 h2
    by (cases "parse ''  react   AND hooks ''") simp
qed

subsection \<open>Blank queries\<close>

lemma collapseWs_Nil_iff: "collapseWs s = [] \<longleftrightarrow> s = []"
  by (cases s) auto

text \<open>On an empty or blank query \<^verbatim>\<open>parse\<close> returns the initial result with the empty
  text as full text.\<close>

lemma parse_blank:
  assumes "trim q = []"
  shows "parse q = \<lparr>qfields = [], operators = [], fullText = Some [], dateFilters = Some []\<rparr>"
proof -
  have n: "normalizeQuery q = []"
    using assms by (simp add: normalizeQuery_collapse)
  have "matchAll fieldRx [] = None"
    by (rule matchAll_fieldRx_no_colon) simp
  with n show ?thesis
    by (simp add: parse_def Let_def)
qed

lemma fullText_addClause: "fullText (addClause r m) = fullText r"
  by (auto simp: addClause_def Let_def split: option.splits)

lemma fullText_foldl_addClause: "fullText (foldl addClause r cls) = fullText r"
  by (induction cls arbitrary: r) (auto simp: fullText_addClause)

text \<open>The full text is the empty string exactly on the blank queries.\<close>

lemma parse_fullText_empty_iff: "fullText (parse q) = Some [] \<longleftrightarrow> trim q = []"
proof
  assume "trim q = []"
  then show "fullText (parse q) = Some []"
    by (simp add: parse_blank)
next
  assume e: "fullText (parse q) = Some []"
  show "trim q = []"
  proof (cases "matchAll fieldRx (normalizeQuery q)")
    case None
    with e have "normalizeQuery q = []"
      by (simp add: parse_def Let_def)
    then show ?thesis
      by (simp add: normalizeQuery_collapse collapseWs_Nil_iff)
  next
    case (Some fms)
    with e show ?thesis
      by (auto simp: parse_def Let_def fullText_foldl_addClause split: option.splits if_splits)
  qed
qed

section \<open>Date clauses\<close>

lemma isCmp_isDot: "isCmp c \<Longrightarrow> isDot c"
  by (auto simp: isCmp_def isDot_def of_c_def)

lemma groups_at_two:
  "concat (map (\<lambda>z1. map (\<lambda>z2. (z1, z2)) (ms (Plus (Cls isDot)) z1))
               (ms (Plus (Cls isCmp)) (pre, a # b # cs))) = []
   \<longleftrightarrow> \<not> (isCmp a \<and> isDot b)"
proof (cases "isCmp a")
  case False
  then show ?thesis by (simp add: ms_Plus_Cls)
next
  case True
  show ?thesis
  proof (cases "isDot b")
    case True
    have "(a # pre, b # cs) \<in> set (ms (Star (Cls isCmp)) (a # pre, b # cs))"
      by (subst ms_Star_Cls) simp
    moreover have "ms (Plus (Cls isDot)) (a # pre, b # cs) \<noteq> []"
      using True by (simp add: ms_Plus_Cls ms_Star_nonempty)
    ultimately have "concat (map (\<lambda>z1. map (\<lambda>z2. (z1, z2)) (ms (Plus (Cls isDot)) z1))
               (ms (Star (Cls isCmp)) (a # pre, b # cs))) \<noteq> []"
      by (rule concat_map_nonempty) simp
    then show ?thesis
      using \<open>isCmp a\<close> True by (simp add: ms_Plus_Cls [of isCmp])
  next
    case False
    then have "\<not> isCmp b" using isCmp_isDot by blast
    then have "ms (Star (Cls isCmp)) (a # pre, b # cs) = [(a # pre, b # cs)]"
      by (subst ms_Star_Cls) simp
    then show ?thesis
      using \<open>isCmp a\<close> False by (simp add: ms_Plus_Cls)
  qed
qed

lemma groups_at_one:
  "concat (map (\<lambda>z1. map (\<lambda>z2. (z1, z2)) (ms (Plus (Cls isDot)) z1))
               (ms (Plus (Cls isCmp)) (pre, [a]))) = []"
  by (simp add: ms_Plus_Cls ms_Star_Cls [of _ _ "[]"])

lemma groups_at_end:
  "concat (map (\<lambda>z1. map (\<lambda>z2. (z1, z2)) (ms (Plus (Cls isDot)) z1))
               (ms (Plus (Cls isCmp)) (pre, []))) = []"
  by (simp add: ms_Plus_Cls)

lemma execGroups2_date:
  "(execGroups2 (Plus (Cls isCmp)) (Plus (Cls isDot)) pre v = None) = (\<not> cmpFollowed v)"
proof (induction v arbitrary: pre rule: cmpFollowed.induct)
  case (1 a b cs)
  show ?case
  proof (cases "isCmp a \<and> isDot b")
    case True
    with groups_at_two [of pre a b cs] have
      "concat (map (\<lambda>z1. map (\<lambda>z2. (z1, z2)) (ms (Plus (Cls isDot)) z1))
               (ms (Plus (Cls isCmp)) (pre, a # b # cs))) \<noteq> []"
      by blast
    then obtain z zs where
      "concat (map (\<lambda>z1. map (\<lambda>z2. (z1, z2)) (ms (Plus (Cls isDot)) z1))
               (ms (Plus (Cls isCmp)) (pre, a # b # cs))) = z # zs"
      by (meson neq_Nil_conv)
    then have "execGroups2 (Plus (Cls isCmp)) (Plus (Cls isDot)) pre (a # b # cs) \<noteq> None"
      by (subst execGroups2.simps) (simp split: prod.splits)
    with True show ?thesis by simp
  next
    case False
    with groups_at_two [of pre a b cs] have
      "concat (map (\<lambda>z1. map (\<lambda>z2. (z1, z2)) (ms (Plus (Cls isDot)) z1))
               (ms (Plus (Cls isCmp)) (pre, a # b # cs))) = []"
      by blast
    then have "execGroups2 (Plus (Cls isCmp)) (Plus (Cls isDot)) pre (a # b # cs)
        = execGroups2 (Plus (Cls isCmp)) (Plus (Cls isDot)) (a # pre) (b # cs)"
      by (subst execGroups2.simps) (simp only: list.case)
    with False "1.IH" [of "a # pre"] show ?thesis by simp
  qed
next
  case (2 a)
  have "execGroups2 (Plus (Cls isCmp)) (Plus (Cls isDot)) pre [a]
        = execGroups2 (Plus (Cls isCmp)) (Plus (Cls isDot)) (a # pre) []"
    by (subst execGroups2.simps) (simp only: groups_at_one list.case)
  also have "\<dots> = None"
    by (subst execGroups2.simps) (simp only: groups_at_end list.case)
  finally show ?case by simp
next
  case 3
  show ?case
    by (subst execGroups2.simps) (simp add: groups_at_end)
qed

lemma parse_clauses:
  assumes "matchAll fieldRx (normalizeQuery q) = Some fieldMatches"
  shows "qfields (parse q) = qfields (foldl addClause emptyQuery fieldMatches)"
    and "dateFilters (parse q) = dateFilters (foldl addClause emptyQuery fieldMatches)"
  using assms by (auto simp: parse_def Let_def emptyQuery_def split: option.splits)

text \<open>
  C6 (as amended). A \<^verbatim>\<open>created\<close> or \<^verbatim>\<open>updated\<close> clause is dropped, the result left as it
  was, exactly when its value has no comparison character directly followed by a further
  character (other than a line terminator); otherwise one date filter is appended. The
  fields and date filters of \<^verbatim>\<open>parse\<close> are those built by the loop body over the matched
  clauses, and on an empty or blank query \<^verbatim>\<open>parse\<close> returns a result with empty
  containers.
\<close>

theorem date_clause_dropped:
  "(clauseField m = ''created'' \<or> clauseField m = ''updated'' \<longrightarrow>
      (\<not> cmpFollowed (clauseValue m) \<longrightarrow> addClause r m = r) \<and>
      (cmpFollowed (clauseValue m) \<longrightarrow>
         (\<exists>g1 g2. addClause r m =
            r\<lparr>dateFilters :=
                map_option (\<lambda>fs. fs @ [\<lparr>field = clauseField m, operator = g1, dvalue = g2\<rparr>])
                           (dateFilters r)\<rparr>)))
   \<and> (matchAll fieldRx (normalizeQuery q) = Some fieldMatches \<longrightarrow>
        qfields (parse q) = qfields (foldl addClause emptyQuery fieldMatches) \<and>
        dateFilters (parse q) = dateFilters (foldl addClause emptyQuery fieldMatches))
   \<and> (trim b = [] \<longrightarrow>
        qfields (parse b) = [] \<and> operators (parse b) = [] \<and> dateFilters (parse b) = Some [])"
proof (intro conjI impI)
  assume f: "clauseField m = ''created'' \<or> clauseField m = ''updated''"
  {
    assume "\<not> cmpFollowed (clauseValue m)"
    then have "dateMatch (clauseValue m) = None"
      by (simp add: dateMatch_def execGroups2_date)
    with f show "addClause r m = r"
      by (auto simp: addClause_def Let_def)
  }
  {
    assume "cmpFollowed (clauseValue m)"
    then have "dateMatch (clauseValue m) \<noteq> None"
      by (simp add: dateMatch_def execGroups2_date)
    then obtain g1 g2 where "dateMatch (clauseValue m) = Some (g1, g2)"
      by auto
    with f have "addClause r m =
            r\<lparr>dateFilters :=
                map_option (\<lambda>fs. fs @ [\<lparr>field = clauseField m, operator = g1, dvalue = trim g2\<rparr>])
                           (dateFilters r)\<rparr>"
      by (auto simp: addClause_def Let_def)
    then show "\<exists>g1 g2. addClause r m =
            r\<lparr>dateFilters :=
                map_option (\<lambda>fs. fs @ [\<lparr>field = clauseField m, operator = g1, dvalue = g2\<rparr>])
                           (dateFilters r)\<rparr>"
      by blast
  }
next
  assume "matchAll fieldRx (normalizeQuery q) = Some fieldMatches"
  then show "qfields (parse q) = qfields (foldl addClause emptyQuery fieldMatches)"
    and "dateFilters (parse q) = dateFilters (foldl addClause emptyQuery fieldMatches)"
    by (rule parse_clauses)+
next
  assume "trim b = []"
  then show "qfields (parse b) = []" and "operators (parse b) = []"
    and "dateFilters (parse b) = Some []"
    by (simp_all add: parse_blank)
qed

theorem date_clause_dropped_witness:
  "clauseField ''created:2024-01-01'' = ''created'' \<and>
   clauseValue ''created:2024-01-01'' = ''2024-01-01'' \<and>
   \<not> cmpFollowed ''2024-01-01'' \<and>
   addClause emptyQuery ''created:2024-01-01'' = emptyQuery \<and>
   matchAll fieldRx (normalizeQuery ''created:2024-01-01 type:note'')
     = Some [''created:2024-01-01'', ''type:note''] \<and>
   qfields (parse ''created:2024-01-01 type:note'') = [(''type'', Str ''note'')] \<and>
   dateFilters (parse ''created:2024-01-01 type:note'') = Some [] \<and>
   trim ''   '' = [] \<and>
   qfields (parse ''   '') = [] \<and> operators (parse ''   '') = [] \<and>
   dateFilters (parse ''   '') = Some []"
proof -
  have h1: "clauseField ''created:2024-01-01'' = ''created''"
    by code_simp
  have h2: "clauseValue ''created:2024-01-01'' = ''2024-01-01''"
    by code_simp
  have h3: "\<not> cmpFollowed ''2024-01-01''"
    by code_simp
  have h4: "matchAll fieldRx (normalizeQuery ''created:2024-01-01 type:note'')
     = Some [''created:2024-01-01'', ''type:note'']"
    by code_simp
  have h5: "foldl addClause emptyQuery [''created:2024-01-01'', ''type:note'']
     = \<lparr>qfields = [(''type'', Str ''note'')], operators = [], fullText = None,
        dateFilters = Some []\<rparr>"
    by code_simp
  have h6: "trim ''   '' = []"
    by code_simp
  show ?thesis
    using date_clause_dropped [of "''created:2024-01-01''" emptyQuery
        "''created:2024-01-01 type:note''" "[''created:2024-01-01'', ''type:note'']" "''   ''"]
      h1 h2 h3 h4 h5 h6
    by simp
qed

text \<open>The pattern for the operator is not anchored: a value that does not begin with a
  comparison character still yields a date filter when one occurs further on.\<close>

theorem date_clause_unanchored:
  "clauseField ''created:x>1'' = ''created'' \<and>
   clauseValue ''created:x>1'' = ''x>1'' \<and>
   \<not> isCmp (hd ''x>1'') \<and>
   parse ''created:x>1'' =
     \<lparr>qfields = [], operators = [], fullText = None,
      dateFilters = Some [\<lparr>field = ''created'', operator = ''>'', dvalue = ''1''\<rparr>]\<rparr>"
  by code_simp

section \<open>Highlighting\<close>

text \<open>An occurrence of the term: a piece of the text of the same length that is equal to
  the term once both are put in upper case.\<close>

lemma ciPrefix_iff:
  "ciPrefix t s \<longleftrightarrow>
     length t \<le> length s \<and> toUpperCase (take (length t) s) = toUpperCase t"
  by (induction t s rule: ciPrefix.induct) (auto simp: toUpperCase_def eqI_def)










end
